theory Spec2Isabelle
  imports Main "HOL-Library.Word"
begin

unbundle bit_operations_syntax

section \<open>The persistence codec of \<^verbatim>\<open>token.h\<close>\<close>

text \<open>
  \<^verbatim>\<open>token.h\<close> defines four inline functions that encode and decode integers and
  strings on wxWidgets streams. They keep their bytes in arrays of \<^verbatim>\<open>wxChar\<close>, a type
  of wxWidgets whose meaning is fixed by the build: \<^verbatim>\<open>char\<close> in an ANSI build,
  \<^verbatim>\<open>wchar_t\<close> (two or four bytes) in a Unicode build. The streams count in bytes.
  The build is therefore a parameter of the model: the size of a \<^verbatim>\<open>wxChar\<close> in
  bytes, whether the type is signed, and the byte order of the host. \<^verbatim>\<open>int\<close> and
  \<^verbatim>\<open>unsigned int\<close> are 32-bit words throughout.
\<close>

type_synonym byte = "8 word"
type_synonym cint = "32 word"

record build =
  wxChar_size :: nat
  wxChar_signed :: bool
  big_endian :: bool

text \<open>An ANSI build on a host whose \<^verbatim>\<open>char\<close> is signed or not.\<close>

definition ansi_build :: "bool \<Rightarrow> build" where
  "ansi_build sg = \<lparr>wxChar_size = 1, wxChar_signed = sg, big_endian = False\<rparr>"

text \<open>A Unicode build: \<^verbatim>\<open>wchar_t\<close> of \<open>n\<close> bytes on a little-endian host.\<close>

definition unicode_build :: "nat \<Rightarrow> bool \<Rightarrow> build" where
  "unicode_build n sg = \<lparr>wxChar_size = n, wxChar_signed = sg, big_endian = False\<rparr>"

subsection \<open>A \<^verbatim>\<open>wxChar\<close> in memory\<close>

text \<open>
  A \<^verbatim>\<open>wxChar\<close> value is written as the \<^verbatim>\<open>int\<close> it promotes to. Its object
  representation is its \<open>wxChar_size\<close> low-order bytes in host order; reading one back
  extends the sign when the type is signed.
\<close>

definition host_order :: "build \<Rightarrow> byte list \<Rightarrow> byte list" where
  "host_order P bs = (if big_endian P then rev bs else bs)"

fun word_of_bytes :: "byte list \<Rightarrow> cint" where
  "word_of_bytes [] = 0"
| "word_of_bytes (b # bs) = ucast b OR push_bit 8 (word_of_bytes bs)"

definition wxChar_store :: "build \<Rightarrow> cint \<Rightarrow> byte list" where
  "wxChar_store P v =
     host_order P (map (\<lambda>k. ucast (drop_bit (8 * k) v)) [0..<wxChar_size P])"

definition wxChar_load :: "build \<Rightarrow> byte list \<Rightarrow> cint" where
  "wxChar_load P bs =
     (let w = word_of_bytes (host_order P bs)
      in if wxChar_signed P then signed_take_bit (8 * wxChar_size P - 1) w else w)"

text \<open>
  A local array is a function from byte offsets to bytes. An array that the source
  leaves uninitialised starts with contents that are a parameter of the function.
\<close>

type_synonym memory = "nat \<Rightarrow> byte"

definition read_into :: "memory \<Rightarrow> byte list \<Rightarrow> memory" where
  "read_into m bs = (\<lambda>a. if a < length bs then bs ! a else m a)"

definition wxChar_at :: "build \<Rightarrow> memory \<Rightarrow> nat \<Rightarrow> cint" where
  "wxChar_at P m k =
     wxChar_load P (map m [k * wxChar_size P..<k * wxChar_size P + wxChar_size P])"

subsection \<open>Streams\<close>

text \<open>
  An output stream is the list of the bytes written so far. An input stream is its
  contents and a position; \<^verbatim>\<open>Read\<close> returns the bytes it could read
  (\<^verbatim>\<open>LastRead()\<close> is their number), and \<^verbatim>\<open>SeekI(n, wxFromCurrent)\<close> moves the
  position as a file stream does, also past the end.
\<close>

definition Write :: "byte list \<Rightarrow> byte list \<Rightarrow> byte list" where
  "Write f bs = f @ bs"

record istream =
  contents :: "byte list"
  position :: nat

definition Read :: "istream \<Rightarrow> nat \<Rightarrow> byte list \<times> istream" where
  "Read f n =
     (let bs = take n (drop (position f) (contents f))
      in (bs, f\<lparr>position := position f + length bs\<rparr>))"

definition SeekI :: "istream \<Rightarrow> nat \<Rightarrow> istream" where
  "SeekI f n = f\<lparr>position := position f + n\<rparr>"

definition available :: "istream \<Rightarrow> nat" where
  "available f = length (contents f) - position f"

subsection \<open>Integers\<close>

text \<open>
  \<^verbatim>\<open>SaveIntToFile\<close> fills \<^verbatim>\<open>wxChar c[4]\<close> with the four bytes of \<open>j\<close> and calls
  \<^verbatim>\<open>f->Write(c, 4)\<close>, which writes the first four bytes of the array's memory.
\<close>

definition SaveIntToFile :: "build \<Rightarrow> byte list \<Rightarrow> cint \<Rightarrow> byte list" where
  "SaveIntToFile P f i =
     (let j = i;
          c = [drop_bit 0 j AND 0xFF, drop_bit 8 j AND 0xFF,
               drop_bit 16 j AND 0xFF, drop_bit 24 j AND 0xFF]
      in Write f (take 4 (concat (map (wxChar_store P) c))))"

text \<open>
  \<^verbatim>\<open>LoadIntFromFile\<close> reads four bytes into the uninitialised \<^verbatim>\<open>wxChar c[4]\<close>
  (\<open>c0\<close> is what the array held before) and combines the four elements, each
  promoted to \<^verbatim>\<open>int\<close> and shifted as a 32-bit two's complement word. The result is
  the flag returned, the value of \<^verbatim>\<open>*i\<close> afterwards (\<open>i\<close> is its value before), and
  the stream.
\<close>

definition LoadIntFromFile ::
  "build \<Rightarrow> memory \<Rightarrow> istream \<Rightarrow> cint \<Rightarrow> bool \<times> cint \<times> istream" where
  "LoadIntFromFile P c0 f i =
     (case Read f 4 of (bs, f') \<Rightarrow>
        if length bs \<noteq> 4 then (False, i, f')
        else
          (let c = wxChar_at P (read_into c0 bs)
           in (True,
               push_bit 0 (c 0) OR push_bit 8 (c 1) OR push_bit 16 (c 2) OR push_bit 24 (c 3),
               f')))"

subsection \<open>Strings\<close>

text \<open>
  A \<^verbatim>\<open>wxString\<close> is the list of its \<^verbatim>\<open>wxChar\<close> elements; it may hold a zero
  element. \<^verbatim>\<open>str.mb_str(wxConvUTF8)\<close> is a conversion of wxWidgets and a parameter of
  \<^verbatim>\<open>SaveStringToFile\<close>: it yields the buffer \<^verbatim>\<open>psz\<close> points to (a terminating zero
  byte follows it), or \<open>None\<close> for a null buffer. In an ANSI build it is the string's
  own \<^verbatim>\<open>char\<close> buffer.
\<close>

type_synonym wxString = "cint list"

definition mb_str_ansi :: "wxString \<Rightarrow> byte list option" where
  "mb_str_ansi str = Some (map ucast str)"

definition strlen :: "byte list \<Rightarrow> nat" where
  "strlen bs = length (takeWhile (\<lambda>b. b \<noteq> 0) bs)"

text \<open>The encoded string: every byte of the buffer, none for a null buffer.\<close>

definition encoded :: "(wxString \<Rightarrow> byte list option) \<Rightarrow> wxString \<Rightarrow> byte list" where
  "encoded mb_str str = (case mb_str str of None \<Rightarrow> [] | Some bs \<Rightarrow> bs)"

text \<open>
  The local \<^verbatim>\<open>int size\<close> is \<open>sz\<close> here. The result of \<^verbatim>\<open>strlen\<close> is narrowed to
  the 32 bits of the \<^verbatim>\<open>int\<close> and the cap compares signed values, so that a buffer of
  \<open>2 ^ 31\<close> bytes or more can make the size negative, which the cap lets through.
  \<^verbatim>\<open>Write\<close> takes the size converted to \<^verbatim>\<open>size_t\<close>, here its 32 bits read
  unsigned; where \<^verbatim>\<open>size_t\<close> is wider a negative size asks for more bytes than the
  buffer holds, and nothing below rests on what is written then.
\<close>

definition SaveStringToFile ::
  "build \<Rightarrow> (wxString \<Rightarrow> byte list option) \<Rightarrow> byte list \<Rightarrow> wxString \<Rightarrow> byte list" where
  "SaveStringToFile P mb_str f str =
     (let psz = mb_str str;
          sz = (case psz of None \<Rightarrow> 0 | Some bs \<Rightarrow> (word_of_nat (strlen bs) :: cint));
          sz = (if 32767 \<le>s sz then 32767 else sz);
          f = SaveIntToFile P f sz
      in if sz \<noteq> 0
         then (case psz of None \<Rightarrow> f | Some bs \<Rightarrow> Write f (take (unat sz) bs))
         else f)"

text \<open>
  \<^verbatim>\<open>LoadStringFromFile\<close> has three uninitialised locals: the array of
  \<^verbatim>\<open>LoadIntFromFile\<close>, \<^verbatim>\<open>int size\<close> and \<^verbatim>\<open>wxChar buf[32768]\<close>. A write outside
  \<^verbatim>\<open>buf\<close>, or a string constructor that finds no terminator inside it, is the fault
  \<open>BufferOverrun\<close>.
\<close>

datatype fault = BufferOverrun

record locals =
  c_uninit :: memory
  size_uninit :: cint
  buf_uninit :: memory

definition buf_elems :: nat where
  "buf_elems = 32768"

text \<open>\<^verbatim>\<open>f->Read(buf, size)\<close> stores the bytes it read at the start of \<^verbatim>\<open>buf\<close>.\<close>

definition buf_read :: "build \<Rightarrow> memory \<Rightarrow> byte list \<Rightarrow> memory option" where
  "buf_read P m bs =
     (if length bs \<le> buf_elems * wxChar_size P then Some (read_into m bs) else None)"

text \<open>\<^verbatim>\<open>buf[k] = '\0'\<close> clears every byte of element \<open>k\<close>.\<close>

definition buf_put_NUL :: "build \<Rightarrow> memory \<Rightarrow> nat \<Rightarrow> memory option" where
  "buf_put_NUL P m k =
     (if k < buf_elems
      then Some (\<lambda>a. if k * wxChar_size P \<le> a \<and> a < k * wxChar_size P + wxChar_size P
                      then 0 else m a)
      else None)"

text \<open>
  \<^verbatim>\<open>wxString(buf, wxConvUTF8)\<close> on a \<^verbatim>\<open>wxChar\<close> array copies the elements before the
  first zero element; \<open>n\<close> elements of the array are left to look at.
\<close>

fun c_string :: "(nat \<Rightarrow> cint) \<Rightarrow> nat \<Rightarrow> nat \<Rightarrow> wxString option" where
  "c_string c k 0 = None"
| "c_string c k (Suc n) =
     (if c k = 0 then Some [] else map_option ((#) (c k)) (c_string c (Suc k) n))"

definition wxString_from_buf :: "build \<Rightarrow> memory \<Rightarrow> wxString option" where
  "wxString_from_buf P m = c_string (wxChar_at P m) 0 buf_elems"

definition LoadStringFromFile ::
  "build \<Rightarrow> locals \<Rightarrow> istream \<Rightarrow> wxString \<Rightarrow> fault + bool \<times> wxString \<times> istream" where
  "LoadStringFromFile P st f str =
     (case LoadIntFromFile P (c_uninit st) f (size_uninit st) of (got, sz, f1) \<Rightarrow>
        if \<not> got then Inr (False, str, f1)
        else if 0 <s sz \<and> sz \<le>s 32767 then
          (case Read f1 (unat sz) of (bs, f2) \<Rightarrow>
             (let ok = (length bs = unat sz)
              in (case buf_read P (buf_uninit st) bs of
                    None \<Rightarrow> Inl BufferOverrun
                  | Some m1 \<Rightarrow>
                      (case buf_put_NUL P m1 (unat sz) of
                         None \<Rightarrow> Inl BufferOverrun
                       | Some m2 \<Rightarrow>
                           (case wxString_from_buf P m2 of
                              None \<Rightarrow> Inl BufferOverrun
                            | Some s \<Rightarrow> Inr (ok, s, f2))))))
        else Inr (True, [], SeekI f1 (unat (sz AND 0xFFFFFF))))"

section \<open>Token kinds\<close>

text \<open>The enumerators of \<^verbatim>\<open>enum TokenKind\<close>, with the values the source gives them.\<close>

definition tkNamespace :: cint where "tkNamespace = 0x0001"
definition tkClass :: cint where "tkClass = 0x0002"
definition tkEnum :: cint where "tkEnum = 0x0004"
definition tkTypedef :: cint where "tkTypedef = 0x0008"
definition tkConstructor :: cint where "tkConstructor = 0x0010"
definition tkDestructor :: cint where "tkDestructor = 0x0020"
definition tkFunction :: cint where "tkFunction = 0x0040"
definition tkVariable :: cint where "tkVariable = 0x0080"
definition tkEnumerator :: cint where "tkEnumerator = 0x0100"
definition tkPreprocessor :: cint where "tkPreprocessor = 0x0200"
definition tkMacro :: cint where "tkMacro = 0x0400"
definition tkAnyContainer :: cint where "tkAnyContainer = tkClass OR tkNamespace OR tkTypedef"
definition tkAnyFunction :: cint where "tkAnyFunction = tkFunction OR tkConstructor OR tkDestructor"
definition tkUndefined :: cint where "tkUndefined = 0xFFFF"

text \<open>The eleven kinds, in the order of the enumeration.\<close>

definition TokenKinds :: "cint list" where
  "TokenKinds = [tkNamespace, tkClass, tkEnum, tkTypedef, tkConstructor, tkDestructor,
     tkFunction, tkVariable, tkEnumerator, tkPreprocessor, tkMacro]"

fun disjoint_from :: "cint \<Rightarrow> cint list \<Rightarrow> bool" where
  "disjoint_from x [] = True"
| "disjoint_from x (y # ys) = (x AND y = 0 \<and> disjoint_from x ys)"

fun pairwise_disjoint :: "cint list \<Rightarrow> bool" where
  "pairwise_disjoint [] = True"
| "pairwise_disjoint (x # xs) = (disjoint_from x xs \<and> pairwise_disjoint xs)"

section \<open>The entity store\<close>

text \<open>
  Of \<^verbatim>\<open>class Token\<close> the model keeps the name, the ancestor list string and the
  relationship sets; \<^verbatim>\<open>TokenIdxSet\<close> is \<^verbatim>\<open>std::set<int>\<close>, which iterates in ascending
  order. \<^verbatim>\<open>m_Tokens\<close> is a vector of pointers: a freed slot holds the null pointer.
\<close>

record Token =
  m_Name :: string
  m_AncestorsString :: string
  m_Ancestors :: "int set"
  m_DirectAncestors :: "int set"
  m_Descendants :: "int set"

record TokensTree =
  m_Tokens :: "Token option list"

text \<open>
  Modelled from the spec: \<^verbatim>\<open>TokensTree::GetTokenAt\<close> is declared in \<^verbatim>\<open>token.h\<close> and
  defined elsewhere. The lookup of a record by identity returns the null sentinel when
  the identity is out of range or the slot is free.
\<close>

definition GetTokenAt :: "TokensTree \<Rightarrow> int \<Rightarrow> Token option" where
  "GetTokenAt t idx =
     (if idx < 0 \<or> int (length (m_Tokens t)) \<le> idx then None else m_Tokens t ! nat idx)"

text \<open>The two inline accessors of \<^verbatim>\<open>token.h\<close>: \<^verbatim>\<open>operator[]\<close> and \<^verbatim>\<open>at\<close>.\<close>

definition operator_subscript :: "TokensTree \<Rightarrow> int \<Rightarrow> Token option" where
  "operator_subscript t idx = GetTokenAt t idx"

definition at :: "TokensTree \<Rightarrow> int \<Rightarrow> Token option" where
  "at t idx = GetTokenAt t idx"

subsection \<open>The inheritance closure\<close>

text \<open>A loop over a container whose body may fail to return.\<close>

fun for_each :: "('a \<Rightarrow> 's \<Rightarrow> 's option) \<Rightarrow> 'a list \<Rightarrow> 's \<Rightarrow> 's option" where
  "for_each body [] s = Some s"
| "for_each body (x # xs) s =
     (case body x s of None \<Rightarrow> None | Some s' \<Rightarrow> for_each body xs s')"

text \<open>
  Modelled from the spec: \<^verbatim>\<open>TokensTree::RecalcFullInheritance(parentIdx, result)\<close> is
  declared in \<^verbatim>\<open>token.h\<close> and defined elsewhere. It is the closure walk over the
  resolved direct ancestors: an identity already in \<open>result\<close> is skipped, any other is
  added to \<open>result\<close> and descended into; an identity that resolves to no live record
  has no ancestors. The recursion is the source's, so the model counts its depth:
  \<open>None\<close> means that the depth allowed was not enough.
\<close>

fun RecalcFullInheritance :: "nat \<Rightarrow> TokensTree \<Rightarrow> int \<Rightarrow> int set \<Rightarrow> int set option" where
  "RecalcFullInheritance 0 t parentIdx result = None"
| "RecalcFullInheritance (Suc depth) t parentIdx result =
     (case at t parentIdx of
        None \<Rightarrow> Some result
      | Some ancestor \<Rightarrow>
          for_each
            (\<lambda>idx result.
               if idx \<in> result then Some result
               else RecalcFullInheritance depth t idx (insert idx result))
            (sorted_list_of_set (m_DirectAncestors ancestor)) result)"

text \<open>The names of a comma-separated ancestor list.\<close>

fun split_commas :: "string \<Rightarrow> string list" where
  "split_commas [] = [[]]"
| "split_commas (c # cs) =
     (if c = CHR '','' then [] # split_commas cs
      else (case split_commas cs of [] \<Rightarrow> [[c]] | w # ws \<Rightarrow> (c # w) # ws))"

text \<open>The live records whose name is one of \<open>names\<close>.\<close>

definition FindByNames :: "TokensTree \<Rightarrow> string list \<Rightarrow> int set" where
  "FindByNames t names =
     set (filter
       (\<lambda>idx. case at t idx of None \<Rightarrow> False | Some tok \<Rightarrow> m_Name tok \<in> set names)
       (map int [0..<length (m_Tokens t)]))"

definition update_token :: "TokensTree \<Rightarrow> int \<Rightarrow> (Token \<Rightarrow> Token) \<Rightarrow> TokensTree" where
  "update_token t idx change =
     (case at t idx of
        None \<Rightarrow> t
      | Some tok \<Rightarrow> t\<lparr>m_Tokens := (m_Tokens t)[nat idx := Some (change tok)]\<rparr>)"

text \<open>
  Modelled from the spec: \<^verbatim>\<open>TokensTree::RecalcInheritanceChain(token)\<close> is declared in
  \<^verbatim>\<open>token.h\<close> and defined elsewhere. It resolves the record's direct ancestors by
  name against its ancestor list, computes the closure over the resolved direct
  ancestors with \<^verbatim>\<open>RecalcFullInheritance\<close>, stores the ancestors and adds the record
  to the descendants of each live ancestor.
\<close>

definition RecalcInheritanceChain :: "nat \<Rightarrow> TokensTree \<Rightarrow> int \<Rightarrow> TokensTree option" where
  "RecalcInheritanceChain depth t self =
     (case at t self of
        None \<Rightarrow> Some t
      | Some token \<Rightarrow>
          (let direct = FindByNames t (filter (\<lambda>n. n \<noteq> []) (split_commas (m_AncestorsString token)));
               t1 = update_token t self (\<lambda>tok. tok\<lparr>m_DirectAncestors := direct, m_Ancestors := direct\<rparr>)
           in (case for_each (RecalcFullInheritance depth t1) (sorted_list_of_set direct) {} of
                 None \<Rightarrow> None
               | Some result \<Rightarrow>
                   (let ancestors = direct \<union> result;
                        t2 = update_token t1 self (\<lambda>tok. tok\<lparr>m_Ancestors := ancestors\<rparr>)
                    in Some (fold
                         (\<lambda>a t'. update_token t' a
                            (\<lambda>tok. tok\<lparr>m_Descendants := insert self (m_Descendants tok)\<rparr>))
                         (sorted_list_of_set ancestors) t2)))))"

text \<open>A store in which A derives from B and B from A, and C from itself.\<close>

definition cyclic_store :: TokensTree where
  "cyclic_store = \<lparr>m_Tokens =
     [Some \<lparr>m_Name = ''A'', m_AncestorsString = ''B'', m_Ancestors = {},
            m_DirectAncestors = {1}, m_Descendants = {}\<rparr>,
      Some \<lparr>m_Name = ''B'', m_AncestorsString = ''A'', m_Ancestors = {},
            m_DirectAncestors = {0}, m_Descendants = {}\<rparr>,
      None,
      Some \<lparr>m_Name = ''C'', m_AncestorsString = ''C,A'', m_Ancestors = {},
            m_DirectAncestors = {3, 7}, m_Descendants = {}\<rparr>]\<rparr>"

text \<open>The store of the spec's example: \<^verbatim>\<open>Derived\<close> names \<^verbatim>\<open>Base\<close> as its ancestor.\<close>

definition base_derived :: TokensTree where
  "base_derived = \<lparr>m_Tokens =
     [Some \<lparr>m_Name = ''Base'', m_AncestorsString = '''', m_Ancestors = {},
            m_DirectAncestors = {}, m_Descendants = {}\<rparr>,
      Some \<lparr>m_Name = ''Derived'', m_AncestorsString = ''Base'', m_Ancestors = {},
            m_DirectAncestors = {}, m_Descendants = {}\<rparr>]\<rparr>"

text \<open>Some contents for the uninitialised locals, for the concrete runs below.\<close>

definition stale :: locals where
  "stale = \<lparr>c_uninit = (\<lambda>a. 0xAA), size_uninit = 0x55555555, buf_uninit = (\<lambda>a. 0xAA)\<rparr>"

section \<open>Properties of the integer codec\<close>

lemma and_FF: "(w::cint) AND 0xFF = take_bit 8 w"
  using take_bit_eq_mask [of 8 w] by (simp add: mask_eq_exp_minus_1)

lemma ucast_low_byte: "(ucast ((w::cint) AND 0xFF) :: byte) = ucast w"
  unfolding and_FF by (rule bit_word_eqI) (simp add: bit_simps)

lemma SaveIntToFile_char:
  assumes "wxChar_size P = 1"
  shows "SaveIntToFile P f i =
    f @ [ucast i, ucast (drop_bit 8 i), ucast (drop_bit 16 i), ucast (drop_bit 24 i)]"
  using assms
  by (simp add: SaveIntToFile_def wxChar_store_def host_order_def Write_def ucast_low_byte)

lemma LoadIntFromFile_uchar:
  assumes "wxChar_size P = 1" and "\<not> wxChar_signed P"
  shows "LoadIntFromFile P c0
      \<lparr>contents = pre @ [b0, b1, b2, b3] @ post, position = length pre\<rparr> i =
    (True,
     ucast b0 OR push_bit 8 (ucast b1) OR push_bit 16 (ucast b2) OR push_bit 24 (ucast b3),
     \<lparr>contents = pre @ [b0, b1, b2, b3] @ post, position = length pre + 4\<rparr>)"
  using assms
  by (simp add: LoadIntFromFile_def Read_def wxChar_at_def wxChar_load_def host_order_def
      read_into_def)

lemma bytes_compose:
  "ucast (ucast (i::cint) :: byte) OR push_bit 8 (ucast (ucast (drop_bit 8 i) :: byte)) OR
   push_bit 16 (ucast (ucast (drop_bit 16 i) :: byte)) OR
   push_bit 24 (ucast (ucast (drop_bit 24 i) :: byte)) = i"
  (is "?l = i")
proof (rule bit_word_eqI)
  fix n
  assume "n < LENGTH(32)"
  then show "bit ?l n = bit i n"
    by (cases "n < 8"; cases "n < 16"; cases "n < 24") (auto simp add: bit_simps)
qed

text \<open>
  Where \<^verbatim>\<open>wxChar\<close> is an unsigned 8-bit \<^verbatim>\<open>char\<close> the integer codec is exact: what
  \<^verbatim>\<open>SaveIntToFile\<close> appends to a stream, \<^verbatim>\<open>LoadIntFromFile\<close> reads back.
\<close>

lemma LoadInt_SaveInt_uchar:
  assumes "wxChar_size P = 1" and "\<not> wxChar_signed P"
  shows "LoadIntFromFile P c0
      \<lparr>contents = SaveIntToFile P pre i @ post, position = length pre\<rparr> i0 =
    (True, i, \<lparr>contents = SaveIntToFile P pre i @ post, position = length pre + 4\<rparr>)"
  using LoadIntFromFile_uchar [OF assms, of c0 pre "ucast i" "ucast (drop_bit 8 i)"
      "ucast (drop_bit 16 i)" "ucast (drop_bit 24 i)" post i0]
  by (simp add: SaveIntToFile_char [OF assms(1)] bytes_compose)

lemma SaveIntToFile_eval:
  "SaveIntToFile (ansi_build True) [] 128 = [0x80, 0, 0, 0]"
  "SaveIntToFile (unicode_build 4 True) [] 256 = [0, 0, 0, 0]"
  "SaveIntToFile (unicode_build 4 True) [] 0 = [0, 0, 0, 0]"
  by code_simp+

lemma LoadIntFromFile_signed_char:
  "LoadIntFromFile (ansi_build True) c0 \<lparr>contents = [0x80, 0, 0, 0], position = 0\<rparr> i0 =
   (True, - 128, \<lparr>contents = [0x80, 0, 0, 0], position = 4\<rparr>)"
  by (simp add: LoadIntFromFile_def Read_def wxChar_at_def wxChar_load_def host_order_def
      read_into_def ansi_build_def Let_def)

text \<open>
  C1: an integer written by \<^verbatim>\<open>SaveIntToFile\<close> and read back by \<^verbatim>\<open>LoadIntFromFile\<close>
  is the same integer, on any platform. The code does this only where \<^verbatim>\<open>wxChar\<close> is
  an unsigned 8-bit type (\<open>LoadInt_SaveInt_uchar\<close>). In an ANSI build whose
  \<^verbatim>\<open>char\<close> is signed, 128 is written as the bytes 80 00 00 00 and read back as -128,
  whatever the array held before: the first element is promoted with its sign. In a
  Unicode build with a four-byte \<^verbatim>\<open>wchar_t\<close>, 256 and 0 are written as the same four
  bytes, so that no decoder can tell them apart.
\<close>

theorem SaveInt_LoadInt_not_portable:
  "LoadIntFromFile (ansi_build True) c0
     \<lparr>contents = SaveIntToFile (ansi_build True) [] 128, position = 0\<rparr> i0 =
   (True, - 128, \<lparr>contents = [0x80, 0, 0, 0], position = 4\<rparr>) \<and>
   SaveIntToFile (unicode_build 4 True) [] 256 = SaveIntToFile (unicode_build 4 True) [] 0"
  by (simp add: SaveIntToFile_eval LoadIntFromFile_signed_char)

text \<open>
  C5: \<^verbatim>\<open>SaveIntToFile\<close> writes the four bytes of the value in little-endian order,
  independent of the host. Where \<^verbatim>\<open>wxChar\<close> is one byte wide it does
  (\<open>SaveIntToFile_char\<close>). Where \<^verbatim>\<open>wxChar\<close> is \<^verbatim>\<open>wchar_t\<close>, the four bytes written
  are the start of the array's memory: for 0x01020304 they are 04 00 00 00 with a
  four-byte \<^verbatim>\<open>wchar_t\<close>, 04 00 03 00 with a two-byte one, and 00 00 00 04 on a
  big-endian host, where the claim has 04 03 02 01.
\<close>

theorem SaveIntToFile_wide_wxChar:
  "SaveIntToFile (unicode_build 4 True) [] 0x01020304 = [4, 0, 0, 0] \<and>
   SaveIntToFile (unicode_build 2 False) [] 0x01020304 = [4, 0, 3, 0] \<and>
   SaveIntToFile \<lparr>wxChar_size = 4, wxChar_signed = True, big_endian = True\<rparr> [] 0x01020304 =
     [0, 0, 0, 4]"
  by code_simp

text \<open>
  C6: when fewer than four bytes are left in the stream, \<^verbatim>\<open>LoadIntFromFile\<close> returns
  false and leaves the integer as it was; when four bytes are left it returns true.
  This holds in every build and for every content of the uninitialised array.
\<close>

theorem LoadIntFromFile_short_read:
  "(available f < 4 \<longrightarrow>
      fst (LoadIntFromFile P c0 f i) = False \<and> fst (snd (LoadIntFromFile P c0 f i)) = i) \<and>
   (4 \<le> available f \<longrightarrow> fst (LoadIntFromFile P c0 f i) = True)"
  by (auto simp add: LoadIntFromFile_def Read_def available_def Let_def)

theorem LoadIntFromFile_short_read_witness:
  "fst (LoadIntFromFile (ansi_build False) (\<lambda>a. 0) \<lparr>contents = [1, 2, 3], position = 0\<rparr> 7)
     = False \<and>
   fst (snd (LoadIntFromFile (ansi_build False) (\<lambda>a. 0)
     \<lparr>contents = [1, 2, 3], position = 0\<rparr> 7)) = 7 \<and>
   fst (LoadIntFromFile (ansi_build False) (\<lambda>a. 0)
     \<lparr>contents = [1, 2, 3, 4], position = 0\<rparr> 7) = True"
  using LoadIntFromFile_short_read [of "\<lparr>contents = [1, 2, 3], position = 0\<rparr>"
      "ansi_build False" "\<lambda>a. 0" 7]
    LoadIntFromFile_short_read [of "\<lparr>contents = [1, 2, 3, 4], position = 0\<rparr>"
      "ansi_build False" "\<lambda>a. 0" 7]
  by (simp add: available_def)

section \<open>Properties of the string codec\<close>

lemma c_string_scan:
  "c (k + n) = 0 \<Longrightarrow> n < fuel \<Longrightarrow>
   c_string c k fuel = Some (takeWhile (\<lambda>v. v \<noteq> 0) (map c [k..<k + n]))"
proof (induction fuel arbitrary: k n)
  case 0
  then show ?case by simp
next
  case (Suc fuel)
  show ?case
  proof (cases "c k = 0")
    case True
    then show ?thesis by (simp add: upt_rec [of k] del: upt_Suc)
  next
    case False
    with Suc.prems obtain n' where n: "n = Suc n'" by (cases n) auto
    with Suc.prems have "c (Suc k + n') = 0" and "n' < fuel" by simp_all
    from Suc.IH [OF this] False show ?thesis by (simp add: n upt_rec [of k] del: upt_Suc)
  qed
qed

lemma word_of_bytes_zero: "word_of_bytes (replicate n 0) = 0"
  by (induction n) simp_all

lemma wxChar_load_zero: "wxChar_load P (replicate n 0) = 0"
  by (simp add: wxChar_load_def host_order_def word_of_bytes_zero)

lemma wxChar_at_NUL:
  "wxChar_at P (\<lambda>a. if n * wxChar_size P \<le> a \<and> a < n * wxChar_size P + wxChar_size P
                      then 0 else m a) n = 0"
proof -
  have "map (\<lambda>a. if n * wxChar_size P \<le> a \<and> a < n * wxChar_size P + wxChar_size P
                      then 0 else m a) [n * wxChar_size P..<n * wxChar_size P + wxChar_size P]
        = replicate (wxChar_size P) 0"
    by (rule nth_equalityI) auto
  then show ?thesis by (simp add: wxChar_at_def wxChar_load_zero)
qed

lemma wxChar_at_below_NUL:
  assumes "k < n"
  shows "wxChar_at P (\<lambda>a. if n * wxChar_size P \<le> a \<and> a < n * wxChar_size P + wxChar_size P
                      then 0 else m a) k = wxChar_at P m k"
proof -
  from assms have "Suc k \<le> n" by simp
  then have "Suc k * wxChar_size P \<le> n * wxChar_size P" by (rule mult_le_mono1)
  then have "k * wxChar_size P + wxChar_size P \<le> n * wxChar_size P" by simp
  then show ?thesis by (auto simp add: wxChar_at_def intro!: arg_cong [where f = "wxChar_load P"])
qed


lemma LoadStringFromFile_skip:
  assumes "LoadIntFromFile P (c_uninit st) f (size_uninit st) = (True, sz, f1)"
    and "\<not> (0 <s sz \<and> sz \<le>s 32767)"
  shows "LoadStringFromFile P st f str = Inr (True, [], SeekI f1 (unat (sz AND 0xFFFFFF)))"
  using assms by (auto simp add: LoadStringFromFile_def)

lemma sint_nonneg_uint:
  assumes "0 \<le> sint (w::cint)"
  shows "sint w = uint w"
proof -
  have "sint w < 2 ^ 32" using sint_lt [of w] by simp
  with assms have "take_bit 32 (sint w) = sint w" by (simp add: take_bit_int_eq_self)
  with uint_sint [of w] show ?thesis by simp
qed

lemma in_range_unat:
  assumes "0 <s (sz::cint)" and "sz \<le>s 32767"
  shows "unat sz \<le> 32767" and "0 < unat sz"
proof -
  from assms(1) have p: "0 < sint sz" unfolding word_sless_alt by simp
  from assms(2) have q: "sint sz \<le> 32767" unfolding word_sle_eq by simp
  from p have "sint sz = uint sz" by (simp add: sint_nonneg_uint)
  with p q have "sz \<le> 32767" and "0 < sz"
    by (simp_all add: word_le_def word_less_def)
  then show "unat sz \<le> 32767" and "0 < unat sz"
    by (simp_all add: word_le_nat_alt word_less_nat_alt)
qed

lemma Read_length: "Read f n = (bs, f2) \<Longrightarrow> length bs \<le> n"
  by (auto simp add: Read_def Let_def)

lemma LoadStringFromFile_in_range:
  assumes int: "LoadIntFromFile P (c_uninit st) f (size_uninit st) = (True, sz, f1)"
    and range: "0 <s sz" "sz \<le>s 32767"
    and P: "0 < wxChar_size P"
    and rd: "Read f1 (unat sz) = (bs, f2)"
  shows "LoadStringFromFile P st f str =
    Inr (length bs = unat sz,
         takeWhile (\<lambda>v. v \<noteq> 0)
           (map (wxChar_at P (read_into (buf_uninit st) bs)) [0..<unat sz]),
         f2)"
proof -
  let ?n = "unat sz"
  let ?m1 = "read_into (buf_uninit st) bs"
  let ?m2 = "\<lambda>a. if ?n * wxChar_size P \<le> a \<and> a < ?n * wxChar_size P + wxChar_size P
                      then 0 else ?m1 a"
  from range have n: "?n \<le> 32767" by (rule in_range_unat)
  from rd have "length bs \<le> ?n" by (rule Read_length)
  with n have "length bs \<le> 32767" by simp
  also from P have "32767 \<le> buf_elems * wxChar_size P"
    by (cases "wxChar_size P") (simp_all add: buf_elems_def)
  finally have r: "buf_read P (buf_uninit st) bs = Some ?m1"
    by (simp add: buf_read_def)
  from n have p: "buf_put_NUL P ?m1 ?n = Some ?m2"
    by (simp add: buf_put_NUL_def buf_elems_def)
  from n have "?n < buf_elems" by (simp add: buf_elems_def)
  then have "c_string (wxChar_at P ?m2) 0 buf_elems =
      Some (takeWhile (\<lambda>v. v \<noteq> 0) (map (wxChar_at P ?m2) [0..<0 + ?n]))"
    by (intro c_string_scan) (simp_all add: wxChar_at_NUL)
  moreover have "map (wxChar_at P ?m2) [0..<?n] = map (wxChar_at P ?m1) [0..<?n]"
    by (rule map_cong) (simp_all add: wxChar_at_below_NUL)
  ultimately have w: "wxString_from_buf P ?m2 =
      Some (takeWhile (\<lambda>v. v \<noteq> 0) (map (wxChar_at P ?m1) [0..<?n]))"
    by (simp add: wxString_from_buf_def)
  from int range rd r p w show ?thesis
    by (simp add: LoadStringFromFile_def)
qed

lemma LoadStringFromFile_no_overrun:
  assumes "0 < wxChar_size P"
  shows "LoadStringFromFile P st f str \<noteq> Inl BufferOverrun"
proof -
  obtain got sz f1 where int: "LoadIntFromFile P (c_uninit st) f (size_uninit st) = (got, sz, f1)"
    by (cases "LoadIntFromFile P (c_uninit st) f (size_uninit st)") auto
  show ?thesis
  proof (cases "got \<and> 0 <s sz \<and> sz \<le>s 32767")
    case True
    obtain bs f2 where "Read f1 (unat sz) = (bs, f2)"
      by (cases "Read f1 (unat sz)") auto
    with True int assms show ?thesis
      by (simp add: LoadStringFromFile_in_range)
  next
    case False
    with int show ?thesis
      by (auto simp add: LoadStringFromFile_def)
  qed
qed


lemma uchar_value:
  assumes "(c::cint) \<le> 0xFF"
  shows "ucast (ucast c :: byte) = c"
  using assms
  by (simp add: word_unat_eq_iff unsigned_ucast_eq word_le_nat_alt unsigned_take_bit_eq
      take_bit_nat_eq_self)

lemma small_length_word:
  assumes "n \<le> 32767"
  shows "unat (word_of_int (int n) :: cint) = n" and "sint (word_of_int (int n) :: cint) = int n"
  using assms
  by (simp_all add: unat_of_nat take_bit_nat_eq_self signed_of_nat signed_take_bit_int_eq_self)

lemma int_length_word:
  assumes "n < 2 ^ 31"
  shows "unat (word_of_nat n :: cint) = n" and "sint (word_of_nat n :: cint) = int n"
proof -
  from assms have "n < 2 ^ 32" by simp
  then show "unat (word_of_nat n :: cint) = n"
    by (simp add: unat_of_nat take_bit_nat_eq_self)
  from assms have "int n < 2 ^ 31" by simp
  then show "sint (word_of_nat n :: cint) = int n"
    by (simp add: signed_of_nat signed_take_bit_int_eq_self)
qed

lemma cap_zero: "\<not> 32767 \<le>s (0::cint)"
  unfolding word_sle_eq by simp

lemma cap_length:
  assumes "n < 2 ^ 31"
  shows "32767 \<le>s (word_of_nat n :: cint) \<longleftrightarrow> 32767 \<le> n"
proof -
  from assms have "sint (word_of_nat n :: cint) = int n" by (rule int_length_word)
  then show ?thesis unfolding word_sle_eq by simp
qed

lemma length_word_zero:
  assumes "n < 2 ^ 31"
  shows "(word_of_nat n :: cint) = 0 \<longleftrightarrow> n = 0"
proof
  assume "(word_of_nat n :: cint) = 0"
  then have "unat (word_of_nat n :: cint) = 0" by simp
  with int_length_word(1) [OF assms] show "n = 0" by simp
qed simp


lemma strlen_no_NUL: "0 \<notin> set bs \<Longrightarrow> strlen bs = length bs"
  unfolding strlen_def by (induction bs) auto

text \<open>
  What \<^verbatim>\<open>SaveStringToFile\<close> writes for a buffer without a zero byte and shorter than
  \<open>2 ^ 31\<close> bytes: the capped length, then as many bytes.
\<close>

lemma SaveStringToFile_bytes:
  assumes "0 \<notin> set (encoded mb_str str)" and "length (encoded mb_str str) < 2 ^ 31"
  shows "SaveStringToFile P mb_str f str =
     SaveIntToFile P f (word_of_nat (min (length (encoded mb_str str)) 32767)) @
     take 32767 (encoded mb_str str)"
proof (cases "mb_str str")
  case None
  then show ?thesis by (simp add: SaveStringToFile_def encoded_def Write_def cap_zero)
next
  case (Some bs)
  let ?n = "length bs"
  let ?w = "word_of_nat ?n :: cint"
  from Some assms have bs: "strlen bs = ?n" and n: "?n < 2 ^ 31"
    by (simp_all add: encoded_def strlen_no_NUL)
  from n have u: "unat ?w = ?n" by (rule int_length_word)
  note cap = cap_length [OF n]
  note zero = length_word_zero [OF n]
  have e: "encoded mb_str str = bs" by (simp add: encoded_def Some)
  show ?thesis
  proof (cases "32767 \<le> ?n")
    case True
    then have "min ?n 32767 = 32767" by simp
    with True cap bs Some show ?thesis
      by (simp add: e SaveStringToFile_def Write_def Let_def)
  next
    case False
    then have "min ?n 32767 = ?n" and "take 32767 bs = bs" by simp_all
    with False cap zero u bs Some show ?thesis
      by (cases "bs = []") (simp_all add: e SaveStringToFile_def Write_def Let_def strlen_def cap_zero)
  qed
qed

lemma LoadIntFromFile_eval:
  "LoadIntFromFile (ansi_build False) c \<lparr>contents = [0, 0, 1, 0, 7, 7, 7], position = 0\<rparr> i =
    (True, 0x10000, \<lparr>contents = [0, 0, 1, 0, 7, 7, 7], position = 4\<rparr>)"
  "LoadIntFromFile (ansi_build False) c \<lparr>contents = [0xFF, 0xFF, 0xFF, 0xFF, 7], position = 0\<rparr> i =
    (True, - 1, \<lparr>contents = [0xFF, 0xFF, 0xFF, 0xFF, 7], position = 4\<rparr>)"
  "LoadIntFromFile (ansi_build False) c \<lparr>contents = [0, 0, 0, 0, 7], position = 0\<rparr> i =
    (True, 0, \<lparr>contents = [0, 0, 0, 0, 7], position = 4\<rparr>)"
  by (simp_all add: LoadIntFromFile_def Read_def wxChar_at_def
      wxChar_load_def host_order_def read_into_def ansi_build_def)

lemma wxChar_at_uchar:
  assumes "wxChar_size P = 1" and "\<not> wxChar_signed P" and "k < length bs"
  shows "wxChar_at P (read_into m bs) k = ucast (bs ! k)"
  using assms by (simp add: wxChar_at_def wxChar_load_def host_order_def read_into_def)

lemma Read_exact:
  "Read \<lparr>contents = pre @ bs @ post, position = length pre\<rparr> (length bs) =
    (bs, \<lparr>contents = pre @ bs @ post, position = length pre + length bs\<rparr>)"
  by (simp add: Read_def)

lemma length_SaveIntToFile_char:
  "wxChar_size P = 1 \<Longrightarrow> length (SaveIntToFile P f i) = length f + 4"
  by (simp add: SaveIntToFile_char)

lemma SaveStringToFile_eval:
  "SaveStringToFile (ansi_build False) mb_str_ansi [] [0x61, 0x62, 0x63] =
     [3, 0, 0, 0, 0x61, 0x62, 0x63]"
  "SaveStringToFile (ansi_build False) mb_str_ansi [] [0x61, 0, 0x62] = [1, 0, 0, 0, 0x61]"
  by code_simp+

lemma LoadStringFromFile_NUL_eval:
  "LoadStringFromFile (ansi_build False) stale
     \<lparr>contents = [1, 0, 0, 0, 0x61], position = 0\<rparr> [] =
   Inr (True, [0x61], \<lparr>contents = [1, 0, 0, 0, 0x61], position = 5\<rparr>)"
proof -
  let ?P = "ansi_build False"
  let ?f = "\<lparr>contents = [1, 0, 0, 0, 0x61], position = 0\<rparr>"
  let ?f1 = "\<lparr>contents = [1, 0, 0, 0, 0x61], position = 4\<rparr>"
  let ?f2 = "\<lparr>contents = [1, 0, 0, 0, 0x61], position = 5\<rparr>"
  have P: "wxChar_size ?P = 1" "\<not> wxChar_signed ?P" by (simp_all add: ansi_build_def)
  have i: "LoadIntFromFile ?P (c_uninit stale) ?f (size_uninit stale) = (True, 1, ?f1)"
    using LoadIntFromFile_uchar [OF P, of "c_uninit stale" "[]" 1 0 0 0 "[0x61]" "size_uninit stale"]
    by simp
  have r: "Read ?f1 (unat (1::cint)) = ([0x61], ?f2)"
    by (simp add: Read_def Let_def)
  have "0 <s (1::cint)" and "(1::cint) \<le>s 32767" and "0 < wxChar_size ?P"
    by (simp_all add: P word_sless_alt word_sle_eq)
  from LoadStringFromFile_in_range [OF i this r, of "[]"] show ?thesis
    by (simp add: wxChar_at_uchar [OF P])
qed










text \<open>
  C4: when the length prefix that \<^verbatim>\<open>LoadStringFromFile\<close> reads is greater than 32767,
  the string is emptied, the stream moves forward by the prefix masked with
  \<^verbatim>\<open>0xFFFFFF\<close>, and the function returns true.
\<close>

theorem LoadStringFromFile_oversize:
  assumes "LoadIntFromFile P (c_uninit st) f (size_uninit st) = (True, sz, f1)"
    and "32767 <s sz"
  shows "LoadStringFromFile P st f str =
    Inr (True, [], f1\<lparr>position := position f1 + unat (sz AND 0xFFFFFF)\<rparr>)"
proof -
  from assms(2) have "\<not> sz \<le>s 32767" unfolding word_sless_alt word_sle_eq by simp
  with assms(1) show ?thesis
    by (simp add: LoadStringFromFile_skip SeekI_def)
qed

theorem LoadStringFromFile_oversize_witness:
  "LoadStringFromFile (ansi_build False) stale
     \<lparr>contents = [0, 0, 1, 0, 7, 7, 7], position = 0\<rparr> [0x61] =
   Inr (True, [], \<lparr>contents = [0, 0, 1, 0, 7, 7, 7], position = 65540\<rparr>)"
  using LoadStringFromFile_oversize [of "ansi_build False" stale
      "\<lparr>contents = [0, 0, 1, 0, 7, 7, 7], position = 0\<rparr>" "0x10000"
      "\<lparr>contents = [0, 0, 1, 0, 7, 7, 7], position = 4\<rparr>" "[0x61]"]
  by (simp add: LoadIntFromFile_eval word_sless_alt)

text \<open>
  C9: \<^verbatim>\<open>LoadStringFromFile\<close> never writes outside \<^verbatim>\<open>buf\<close>: it reads into the buffer
  only when the prefix is greater than 0 and at most 32767, so that at most 32767
  bytes are read and the terminator is put at an index below 32768. Every other
  prefix, 0 and the negative ones among them, takes the branch that empties the
  string, seeks forward by the masked prefix and returns true.
\<close>

theorem LoadStringFromFile_buffer_safe:
  "(0 < wxChar_size P \<longrightarrow> LoadStringFromFile P st f str \<noteq> Inl BufferOverrun) \<and>
   (LoadIntFromFile P (c_uninit st) f (size_uninit st) = (True, sz, f1) \<and>
    \<not> (0 <s sz \<and> sz \<le>s 32767) \<longrightarrow>
      LoadStringFromFile P st f str = Inr (True, [], SeekI f1 (unat (sz AND 0xFFFFFF)))) \<and>
   (LoadIntFromFile P (c_uninit st) f (size_uninit st) = (True, sz, f1) \<and>
    0 <s sz \<and> sz \<le>s 32767 \<longrightarrow>
      length (fst (Read f1 (unat sz))) \<le> 32767 \<and> unat sz < buf_elems)"
proof (intro conjI impI)
  assume "0 < wxChar_size P"
  then show "LoadStringFromFile P st f str \<noteq> Inl BufferOverrun"
    by (rule LoadStringFromFile_no_overrun)
next
  assume "LoadIntFromFile P (c_uninit st) f (size_uninit st) = (True, sz, f1) \<and>
    \<not> (0 <s sz \<and> sz \<le>s 32767)"
  then show "LoadStringFromFile P st f str = Inr (True, [], SeekI f1 (unat (sz AND 0xFFFFFF)))"
    by (intro LoadStringFromFile_skip) simp_all
next
  assume a: "LoadIntFromFile P (c_uninit st) f (size_uninit st) = (True, sz, f1) \<and>
    0 <s sz \<and> sz \<le>s 32767"
  then have n: "unat sz \<le> 32767" by (intro in_range_unat) simp_all
  have "length (fst (Read f1 (unat sz))) \<le> unat sz"
    by (rule Read_length [of f1 _ _ "snd (Read f1 (unat sz))"]) simp
  with n show "length (fst (Read f1 (unat sz))) \<le> 32767" by simp
  from n show "unat sz < buf_elems" by (simp add: buf_elems_def)
qed

theorem LoadStringFromFile_buffer_safe_witness:
  "LoadStringFromFile (ansi_build False) stale
     \<lparr>contents = [1, 0, 0, 0, 0x61], position = 0\<rparr> [] \<noteq> Inl BufferOverrun \<and>
   LoadStringFromFile (ansi_build False) stale
     \<lparr>contents = [0xFF, 0xFF, 0xFF, 0xFF, 7], position = 0\<rparr> [0x61] =
     Inr (True, [], \<lparr>contents = [0xFF, 0xFF, 0xFF, 0xFF, 7], position = 16777219\<rparr>) \<and>
   LoadStringFromFile (ansi_build False) stale
     \<lparr>contents = [0, 0, 0, 0, 7], position = 0\<rparr> [0x61] =
     Inr (True, [], \<lparr>contents = [0, 0, 0, 0, 7], position = 4\<rparr>)"
  using LoadStringFromFile_buffer_safe [of "ansi_build False" stale
      "\<lparr>contents = [1, 0, 0, 0, 0x61], position = 0\<rparr>" "[]"]
    LoadStringFromFile_buffer_safe [of "ansi_build False" stale
      "\<lparr>contents = [0xFF, 0xFF, 0xFF, 0xFF, 7], position = 0\<rparr>" "[0x61]" "- 1"
      "\<lparr>contents = [0xFF, 0xFF, 0xFF, 0xFF, 7], position = 4\<rparr>"]
    LoadStringFromFile_buffer_safe [of "ansi_build False" stale
      "\<lparr>contents = [0, 0, 0, 0, 7], position = 0\<rparr>" "[0x61]" "0"
      "\<lparr>contents = [0, 0, 0, 0, 7], position = 4\<rparr>"]
  by (simp add: LoadIntFromFile_eval SeekI_def word_sless_alt) (simp add: ansi_build_def)

text \<open>
  C2, as amended: in a build whose \<^verbatim>\<open>wxChar\<close> is an unsigned 8-bit \<^verbatim>\<open>char\<close>, a string
  of at most 32767 characters, none of them zero, that \<^verbatim>\<open>SaveStringToFile\<close> appends to
  a stream is read back by \<^verbatim>\<open>LoadStringFromFile\<close> unchanged: the function returns true
  and leaves the stream after the string's last byte.
\<close>

theorem SaveString_LoadString_uchar:
  assumes P: "wxChar_size P = 1" "\<not> wxChar_signed P"
    and chars: "\<forall>c\<in>set str. c \<noteq> 0 \<and> c \<le> 0xFF"
    and len: "length str \<le> 32767"
  shows "LoadStringFromFile P st
      \<lparr>contents = SaveStringToFile P mb_str_ansi pre str @ post, position = length pre\<rparr> s0 =
    Inr (True, str,
      \<lparr>contents = SaveStringToFile P mb_str_ansi pre str @ post,
       position = length pre + 4 + length str\<rparr>)"
proof -
  let ?bs = "map ucast str :: byte list"
  let ?n = "length str"
  let ?sz = "word_of_int (int ?n) :: cint"
  let ?head = "SaveIntToFile P pre ?sz"
  from chars have cast_back: "map ucast ?bs = str"
    by (simp add: map_idI uchar_value)
  have nz: "\<forall>b\<in>set ?bs. b \<noteq> 0"
  proof
    fix b assume "b \<in> set ?bs"
    then obtain c where c: "c \<in> set str" "b = ucast c" by auto
    with chars have "ucast b = c" and "c \<noteq> 0" by (simp_all add: uchar_value)
    then show "b \<noteq> 0" by auto
  qed
  have enc: "encoded mb_str_ansi str = ?bs"
    by (simp add: encoded_def mb_str_ansi_def)
  from nz have "0 \<notin> set (encoded mb_str_ansi str)"
    unfolding enc by blast
  moreover from len have "length (encoded mb_str_ansi str) < 2 ^ 31"
    unfolding enc by simp
  ultimately have "SaveStringToFile P mb_str_ansi pre str =
      SaveIntToFile P pre (word_of_nat (min (length (encoded mb_str_ansi str)) 32767)) @
      take 32767 (encoded mb_str_ansi str)"
    by (rule SaveStringToFile_bytes)
  with len have out: "SaveStringToFile P mb_str_ansi pre str = ?head @ ?bs"
    by (simp add: enc)
  let ?f = "\<lparr>contents = ?head @ ?bs @ post, position = length pre\<rparr>"
  let ?f1 = "\<lparr>contents = ?head @ ?bs @ post, position = length pre + 4\<rparr>"
  have int: "LoadIntFromFile P (c_uninit st) ?f (size_uninit st) = (True, ?sz, ?f1)"
    using LoadInt_SaveInt_uchar [OF P, of "c_uninit st" pre ?sz "?bs @ post" "size_uninit st"]
    by simp
  from len have un: "unat ?sz = ?n" and sn: "sint ?sz = int ?n"
    by (rule small_length_word)+
  show ?thesis
  proof (cases "str = []")
    case True
    with int have "LoadStringFromFile P st ?f s0 = Inr (True, [], SeekI ?f1 (unat (?sz AND 0xFFFFFF)))"
      by (intro LoadStringFromFile_skip) (simp_all add: word_sless_alt)
    with True out show ?thesis by (simp add: SeekI_def)
  next
    case False
    with sn have r1: "0 <s ?sz" unfolding word_sless_alt by simp
    from sn len have r2: "?sz \<le>s 32767" unfolding word_sle_eq by simp
    have "length ?head = length pre + 4" using P(1) by (rule length_SaveIntToFile_char)
    then have rd: "Read ?f1 (unat ?sz) =
        (?bs, \<lparr>contents = ?head @ ?bs @ post, position = length pre + 4 + ?n\<rparr>)"
      using Read_exact [of ?head ?bs post] un by simp
    have "map (wxChar_at P (read_into (buf_uninit st) ?bs)) [0..<?n] = map ucast ?bs"
      by (rule nth_equalityI) (simp_all add: wxChar_at_uchar [OF P])
    with cast_back have chars_back: "map (wxChar_at P (read_into (buf_uninit st) ?bs)) [0..<?n] = str"
      by simp
    from chars have "takeWhile (\<lambda>v. v \<noteq> 0) str = str"
      by (simp add: takeWhile_eq_all_conv)
    with LoadStringFromFile_in_range [OF int r1 r2 _ rd, of s0] P(1) chars_back
    show ?thesis using out un by simp
  qed
qed

theorem SaveString_LoadString_uchar_witness:
  "LoadStringFromFile (ansi_build False) stale
     \<lparr>contents = SaveStringToFile (ansi_build False) mb_str_ansi [] [0x61, 0x62, 0x63],
      position = 0\<rparr> [] =
   Inr (True, [0x61, 0x62, 0x63],
     \<lparr>contents = [3, 0, 0, 0, 0x61, 0x62, 0x63], position = 7\<rparr>)"
  using SaveString_LoadString_uchar [of "ansi_build False" "[0x61, 0x62, 0x63]" stale "[]" "[]" "[]"]
  by (simp add: SaveStringToFile_eval) (simp add: ansi_build_def)

text \<open>
  C2 as stated, for every string of at most 32767 encoded bytes, fails for a string
  that holds a zero character: \<^verbatim>\<open>strlen\<close> stops at it, and so does the string written.
\<close>

theorem SaveString_LoadString_NUL_counterexample:
  "LoadStringFromFile (ansi_build False) stale
     \<lparr>contents = SaveStringToFile (ansi_build False) mb_str_ansi [] [0x61, 0, 0x62],
      position = 0\<rparr> [] =
   Inr (True, [0x61], \<lparr>contents = [1, 0, 0, 0, 0x61], position = 5\<rparr>) \<and>
   [0x61] \<noteq> [0x61, 0, 0x62 :: cint]"
  by (simp add: SaveStringToFile_eval LoadStringFromFile_NUL_eval)

section \<open>Properties of the token kinds\<close>

text \<open>
  C7: the eleven kinds are single bits, the bits 0 to 10 in the order of the
  enumeration, and so pairwise disjoint; \<^verbatim>\<open>tkAnyContainer\<close> is the union of class,
  namespace and typedef, and \<^verbatim>\<open>tkAnyFunction\<close> the union of function, constructor and
  destructor.
\<close>

theorem TokenKind_flags:
  "TokenKinds = map (\<lambda>k. push_bit k 1) [0..<11] \<and>
   pairwise_disjoint TokenKinds \<and>
   tkAnyContainer = tkClass OR tkNamespace OR tkTypedef \<and>
   tkAnyFunction = tkFunction OR tkConstructor OR tkDestructor \<and>
   tkAnyContainer = 0x000B \<and> tkAnyFunction = 0x0070"
  by (simp add: TokenKinds_def tkNamespace_def tkClass_def tkEnum_def tkTypedef_def
      tkConstructor_def tkDestructor_def tkFunction_def tkVariable_def tkEnumerator_def
      tkPreprocessor_def tkMacro_def tkAnyContainer_def tkAnyFunction_def upt_rec)

section \<open>Properties of the entity store\<close>

text \<open>
  C10: \<^verbatim>\<open>operator[]\<close> and \<^verbatim>\<open>at\<close> return the same pointer for every index: both are
  \<^verbatim>\<open>GetTokenAt\<close>, and so agree on the null sentinel as well.
\<close>

theorem accessors_agree:
  "operator_subscript t idx = at t idx \<and> at t idx = GetTokenAt t idx"
  by (simp add: operator_subscript_def at_def)

theorem accessors_agree_witness:
  "operator_subscript cyclic_store 1 = at cyclic_store 1 \<and>
   operator_subscript cyclic_store 2 = None \<and> at cyclic_store 2 = None \<and>
   operator_subscript cyclic_store (- 1) = None \<and> at cyclic_store (- 1) = None \<and>
   operator_subscript cyclic_store 4 = None \<and> at cyclic_store 4 = None"
  using accessors_agree [of cyclic_store 1] accessors_agree [of cyclic_store 2]
    accessors_agree [of cyclic_store "- 1"] accessors_agree [of cyclic_store 4]
  by (simp add: GetTokenAt_def cyclic_store_def)

subsection \<open>The closure walk returns\<close>

lemma live_subset: "{i. at t i \<noteq> None} \<subseteq> int ` {0..<length (m_Tokens t)}"
proof
  fix i assume "i \<in> {i. at t i \<noteq> None}"
  then have "0 \<le> i" and "i < int (length (m_Tokens t))"
    by (auto simp add: at_def GetTokenAt_def split: if_splits)
  then have "i = int (nat i)" and "nat i \<in> {0..<length (m_Tokens t)}" by auto
  then show "i \<in> int ` {0..<length (m_Tokens t)}" by (rule image_eqI)
qed

lemma live_finite: "finite ({i. at t i \<noteq> None} - result)"
proof (rule finite_Diff)
  have "finite (int ` {0..<length (m_Tokens t)})" by (intro finite_imageI) simp
  with live_subset show "finite {i. at t i \<noteq> None}" by (rule finite_subset)
qed

lemma live_card: "card ({i. at t i \<noteq> None} - result) \<le> length (m_Tokens t)"
proof -
  have "{i. at t i \<noteq> None} - result \<subseteq> int ` {0..<length (m_Tokens t)}"
    using live_subset [of t] by blast
  then have "card ({i. at t i \<noteq> None} - result) \<le> card (int ` {0..<length (m_Tokens t)})"
    by (intro card_mono) simp_all
  also have "\<dots> \<le> length (m_Tokens t)"
    using card_image_le [of "{0..<length (m_Tokens t)}" int] by simp
  finally show ?thesis .
qed

lemma for_each_returns:
  assumes "\<And>x s. x \<in> set xs \<Longrightarrow> I s \<Longrightarrow> \<exists>s'. body x s = Some s' \<and> I s'"
    and "I s"
  shows "\<exists>s'. for_each body xs s = Some s' \<and> I s'"
  using assms
proof (induction xs arbitrary: s)
  case Nil
  then show ?case by simp
next
  case (Cons x xs)
  from Cons.prems obtain s' where s': "body x s = Some s'" "I s'" by fastforce
  from Cons.prems(1) have "\<And>y s. y \<in> set xs \<Longrightarrow> I s \<Longrightarrow> \<exists>s'. body y s = Some s' \<and> I s'"
    by simp
  from Cons.IH [OF this s'(2)] s'(1) show ?case by simp
qed

lemma RecalcFullInheritance_returns:
  assumes "card ({i. at t i \<noteq> None} - result) + 1 < depth \<or> (at t p = None \<and> 0 < depth)"
  shows "\<exists>r. RecalcFullInheritance depth t p result = Some r \<and> result \<subseteq> r"
  using assms
proof (induction depth arbitrary: p result)
  case 0
  then show ?case by simp
next
  case (Suc d)
  let ?live = "{i. at t i \<noteq> None}"
  show ?case
  proof (cases "at t p")
    case None
    then show ?thesis by simp
  next
    case (Some ancestor)
    with Suc.prems have d: "card (?live - result) < d" by simp
    let ?body = "\<lambda>idx result.
      if idx \<in> result then Some result
      else RecalcFullInheritance d t idx (insert idx result)"
    have "\<exists>r. for_each ?body (sorted_list_of_set (m_DirectAncestors ancestor)) result = Some r
        \<and> result \<subseteq> r"
    proof (rule for_each_returns [where I = "\<lambda>s. result \<subseteq> s"])
      fix x s
      assume s: "result \<subseteq> s"
      show "\<exists>s'. ?body x s = Some s' \<and> result \<subseteq> s'"
      proof (cases "x \<in> s")
        case True
        with s show ?thesis by simp
      next
        case False
        have "card (?live - insert x s) + 1 < d \<or> (at t x = None \<and> 0 < d)"
        proof (cases "at t x")
          case None
          with d show ?thesis by simp
        next
          case (Some tok)
          with False have "?live - insert x s \<subset> ?live - s" by auto
          then have "card (?live - insert x s) < card (?live - s)"
            by (rule psubset_card_mono [OF live_finite])
          also from s have "card (?live - s) \<le> card (?live - result)"
            by (intro card_mono [OF live_finite]) auto
          finally show ?thesis using d by simp
        qed
        from Suc.IH [OF this] obtain r
          where "RecalcFullInheritance d t x (insert x s) = Some r" and "insert x s \<subseteq> r"
          by blast
        with False s show ?thesis by auto
      qed
    qed simp
    with Some show ?thesis by simp
  qed
qed

lemma for_each_mono:
  assumes "\<And>x s s'. body x s = Some s' \<Longrightarrow> body' x s = Some s'"
    and "for_each body xs s = Some s'"
  shows "for_each body' xs s = Some s'"
  using assms(2)
proof (induction xs arbitrary: s)
  case Nil
  then show ?case by simp
next
  case (Cons x xs)
  then obtain s1 where s1: "body x s = Some s1" "for_each body xs s1 = Some s'"
    by (auto split: option.splits)
  from assms(1) [OF s1(1)] Cons.IH [OF s1(2)] show ?case by simp
qed

text \<open>The depth allowed does not change what the walk returns.\<close>

lemma RecalcFullInheritance_depth:
  assumes "RecalcFullInheritance depth t p result = Some r"
  shows "RecalcFullInheritance (depth + k) t p result = Some r"
  using assms
proof (induction depth arbitrary: p result r)
  case 0
  then show ?case by simp
next
  case (Suc d)
  show ?case
  proof (cases "at t p")
    case None
    with Suc.prems show ?thesis by simp
  next
    case (Some ancestor)
    with Suc.prems have "for_each
        (\<lambda>idx result. if idx \<in> result then Some result
           else RecalcFullInheritance d t idx (insert idx result))
        (sorted_list_of_set (m_DirectAncestors ancestor)) result = Some r"
      by simp
    then have "for_each
        (\<lambda>idx result. if idx \<in> result then Some result
           else RecalcFullInheritance (d + k) t idx (insert idx result))
        (sorted_list_of_set (m_DirectAncestors ancestor)) result = Some r"
      by (rule for_each_mono [rotated]) (auto simp add: Suc.IH split: if_splits)
    with Some show ?thesis by simp
  qed
qed

lemma length_update_token: "length (m_Tokens (update_token t idx change)) = length (m_Tokens t)"
  by (simp add: update_token_def split: option.splits)

lemma length_cyclic_store: "length (m_Tokens cyclic_store) = 4"
  by (simp add: cyclic_store_def)

lemma RecalcFullInheritance_cyclic:
  "RecalcFullInheritance 6 cyclic_store 0 {} = Some {0, 1}"
  "RecalcFullInheritance 6 cyclic_store 3 {} = Some {3, 7}"
  by code_simp+

text \<open>
  Two runs of the model: the example of the spec, and the record A of the cyclic store,
  whose closure holds A itself.
\<close>

lemma RecalcInheritanceChain_base_derived:
  "RecalcInheritanceChain 4 base_derived 1 = Some \<lparr>m_Tokens =
     [Some \<lparr>m_Name = ''Base'', m_AncestorsString = '''', m_Ancestors = {},
            m_DirectAncestors = {}, m_Descendants = {1}\<rparr>,
      Some \<lparr>m_Name = ''Derived'', m_AncestorsString = ''Base'', m_Ancestors = {0},
            m_DirectAncestors = {0}, m_Descendants = {}\<rparr>]\<rparr>"
  by code_simp

lemma RecalcInheritanceChain_cyclic:
  "RecalcInheritanceChain 6 cyclic_store 0 = Some \<lparr>m_Tokens =
     [Some \<lparr>m_Name = ''A'', m_AncestorsString = ''B'', m_Ancestors = {0, 1},
            m_DirectAncestors = {1}, m_Descendants = {0}\<rparr>,
      Some \<lparr>m_Name = ''B'', m_AncestorsString = ''A'', m_Ancestors = {},
            m_DirectAncestors = {0}, m_Descendants = {0}\<rparr>,
      None,
      Some \<lparr>m_Name = ''C'', m_AncestorsString = ''C,A'', m_Ancestors = {},
            m_DirectAncestors = {3, 7}, m_Descendants = {}\<rparr>]\<rparr>"
  by code_simp

text \<open>
  C8: \<^verbatim>\<open>RecalcInheritanceChain\<close> terminates in every state of the store, also when the
  direct ancestors form a cycle or a record is its own ancestor: a depth of two more
  than the number of slots is enough for it, and for the closure walk from any record
  and with any set of identities already visited, to return.
\<close>

theorem RecalcInheritanceChain_terminates:
  assumes "length (m_Tokens t) + 2 \<le> depth"
  shows "(\<exists>t'. RecalcInheritanceChain depth t self = Some t') \<and>
    (\<exists>r. RecalcFullInheritance depth t parentIdx result = Some r)"
proof
  have walk: "\<exists>r. RecalcFullInheritance depth t' p s = Some r"
    if "length (m_Tokens t') = length (m_Tokens t)" for t' p s
  proof -
    from that assms live_card [of t' s] have "card ({i. at t' i \<noteq> None} - s) + 1 < depth"
      by simp
    then show ?thesis
      using RecalcFullInheritance_returns [of t' s depth p] by auto
  qed
  from walk [of t parentIdx result]
  show "\<exists>r. RecalcFullInheritance depth t parentIdx result = Some r" by simp
  show "\<exists>t'. RecalcInheritanceChain depth t self = Some t'"
  proof (cases "at t self")
    case None
    then show ?thesis by (simp add: RecalcInheritanceChain_def)
  next
    case (Some token)
    let ?direct = "FindByNames t (filter (\<lambda>n. n \<noteq> []) (split_commas (m_AncestorsString token)))"
    let ?t1 = "update_token t self (\<lambda>tok. tok\<lparr>m_DirectAncestors := ?direct, m_Ancestors := ?direct\<rparr>)"
    have "\<exists>r. for_each (RecalcFullInheritance depth ?t1) (sorted_list_of_set ?direct) {} = Some r
        \<and> True"
    proof (rule for_each_returns [where I = "\<lambda>s. True"])
      fix x s
      have "length (m_Tokens ?t1) = length (m_Tokens t)" by (rule length_update_token)
      from walk [OF this, of x s]
      show "\<exists>s'. RecalcFullInheritance depth ?t1 x s = Some s' \<and> True" by simp
    qed simp
    then obtain r where "for_each (RecalcFullInheritance depth ?t1) (sorted_list_of_set ?direct) {}
        = Some r" by blast
    with Some show ?thesis by (simp add: RecalcInheritanceChain_def Let_def)
  qed
qed

theorem RecalcInheritanceChain_terminates_witness:
  "(\<exists>t'. RecalcInheritanceChain 6 cyclic_store 0 = Some t') \<and>
   (\<exists>r. RecalcFullInheritance 6 cyclic_store 3 {} = Some r)"
  using RecalcInheritanceChain_terminates [of cyclic_store 6 0 3 "{}"]
  by (simp add: length_cyclic_store)

end
